theory Spec2Isabelle
  imports Main "HOL-Library.Sublist"
begin

section \<open>Python string primitives used by the agent\<close>

text \<open>
  A Python \<open>str\<close> is a sequence of code points. The model uses \<^typ>\<open>string\<close>, whose
  characters are the code points 0 to 255; on these, \<open>str.lower\<close> maps character by
  character and keeps the length, and \<open>str.isspace\<close> holds for the twelve characters
  listed below.
\<close>

definition str_isspace :: "char \<Rightarrow> bool" where
  "str_isspace c =
     (let n = (of_char c :: nat)
      in (9 \<le> n \<and> n \<le> 13) \<or> (28 \<le> n \<and> n \<le> 32) \<or> n = 133 \<or> n = 160)"

definition lower_char :: "char \<Rightarrow> char" where
  "lower_char c =
     (let n = (of_char c :: nat)
      in if (65 \<le> n \<and> n \<le> 90) \<or> (192 \<le> n \<and> n \<le> 222 \<and> n \<noteq> 215)
         then char_of (n + 32) else c)"

definition str_lower :: "string \<Rightarrow> string" where
  "str_lower s = map lower_char s"

definition str_lstrip :: "string \<Rightarrow> string" where
  "str_lstrip s = dropWhile str_isspace s"

definition str_rstrip :: "string \<Rightarrow> string" where
  "str_rstrip s = rev (dropWhile str_isspace (rev s))"

definition str_strip :: "string \<Rightarrow> string" where
  "str_strip s = str_rstrip (str_lstrip s)"

fun str_startswith :: "string \<Rightarrow> string \<Rightarrow> bool" where
  "str_startswith s [] = True"
| "str_startswith [] (c # sub) = False"
| "str_startswith (d # s) (c # sub) = (d = c \<and> str_startswith s sub)"

text \<open>\<open>s.find(sub)\<close>: the lowest index at which \<open>sub\<close> occurs in \<open>s\<close>, or \<open>-1\<close>.\<close>

fun find_from :: "string \<Rightarrow> string \<Rightarrow> int \<Rightarrow> int" where
  "find_from [] sub i = (if sub = [] then i else - 1)"
| "find_from (c # s) sub i =
     (if str_startswith (c # s) sub then i else find_from s sub (i + 1))"

definition str_find :: "string \<Rightarrow> string \<Rightarrow> int" where
  "str_find s sub = find_from s sub 0"

text \<open>
  The slices \<open>xs[k:]\<close> and \<open>xs[:k]\<close>: a negative bound counts from the end, and a bound
  out of range is clipped (a slice never raises).
\<close>

definition slice_from :: "'a list \<Rightarrow> int \<Rightarrow> 'a list" where
  "slice_from xs k = (if 0 \<le> k then drop (nat k) xs else drop (length xs - nat (- k)) xs)"

definition slice_to :: "'a list \<Rightarrow> int \<Rightarrow> 'a list" where
  "slice_to xs k = (if 0 \<le> k then take (nat k) xs else take (length xs - nat (- k)) xs)"

section \<open>agent.py: parse\_llm\_sufficiency\_response\<close>

definition final_answer_marker :: string where
  "final_answer_marker = ''final answer:''"

definition parse_llm_sufficiency_response :: "string \<Rightarrow> string option \<times> bool" where
  "parse_llm_sufficiency_response response =
     (let response_lower = str_strip (str_lower response)
      in if response_lower = ''insufficient context'' then (None, False)
         else
           let marker_pos = str_find response_lower final_answer_marker
           in if marker_pos \<noteq> - 1
              then
                (let final_answer_text =
                       str_strip (slice_from response (marker_pos + int (length final_answer_marker)))
                 in if final_answer_text \<noteq> [] then (Some final_answer_text, True)
                    else (None, False))
              else (None, False))"

section \<open>Decimal rendering of integers in f-strings\<close>

definition digit_char :: "nat \<Rightarrow> char" where
  "digit_char d = char_of (48 + d)"

function str_nat :: "nat \<Rightarrow> string" where
  "str_nat n = (if n < 10 then [digit_char n] else str_nat (n div 10) @ [digit_char (n mod 10)])"
  by pat_completeness auto
termination
  by (relation "measure (\<lambda>n. n)") auto

declare str_nat.simps [simp del]

section \<open>config.py and prompts.py\<close>

text \<open>
  \<open>MAX_LLM_CONTEXT_LENGTH\<close> is a dictionary with one entry. \<open>CHAT_MODEL\<close> is read from
  the process environment (default \<open>gemma3:4b\<close>), so it is a field of the environment
  record below.
\<close>

definition MAX_LLM_CONTEXT_LENGTH :: "(string \<times> int) list" where
  "MAX_LLM_CONTEXT_LENGTH = [(''gemma3:4b'', 100000)]"

text \<open>\<open>MAX_LLM_CONTEXT_LENGTH.get(CHAT_MODEL, d)\<close>, the lookup of line 67 of config.py.\<close>

definition dict_get :: "(string \<times> int) list \<Rightarrow> string \<Rightarrow> int \<Rightarrow> int" where
  "dict_get d key dflt = (case map_of d key of Some v \<Rightarrow> v | None \<Rightarrow> dflt)"

text \<open>
  The value of an attribute lookup, as far as a slice bound distinguishes values: an
  integer, \<open>None\<close>, or an object that is no slice index (a bound method, a string).
\<close>

datatype pyval = PyInt int | PyNone | PyObject

text \<open>
  \<open>getattr(obj, name, default)\<close> on a dictionary object: the lookup goes through the
  attributes of the object (the methods of the built-in \<open>dict\<close> type, given by \<open>attrs\<close>),
  never through the entries \<open>d\<close> of the dictionary.
\<close>

definition getattr_dict ::
  "(string \<Rightarrow> pyval option) \<Rightarrow> (string \<times> int) list \<Rightarrow> string \<Rightarrow> pyval \<Rightarrow> pyval" where
  "getattr_dict attrs d name dflt = (case attrs name of Some v \<Rightarrow> v | None \<Rightarrow> dflt)"

text \<open>The three literal segments around the fields of \<open>SUFFICIENCY_CHECK_PROMPT_TEMPLATE\<close>.\<close>

definition template_head :: string where
  "template_head = [CHR 0x0A] @ ''Original User Query: '' @ [CHR 0x22]"

definition template_url :: string where
  "template_url = [CHR 0x22, CHR 0x0A, CHR 0x0A] @ ''Text Scraped from: ''"

definition template_text :: string where
  "template_text = [CHR 0x0A] @ ''--- START SCRAPED TEXT ---'' @ [CHR 0x0A]"

definition template_tail :: string where
  "template_tail =
      [CHR 0x0A] @ ''--- END SCRAPED TEXT ---'' @ [CHR 0x0A, CHR 0x0A] @
      ''Instruction: Based *only* on the '' @ [CHR 0x27] @ ''SCRAPED TEXT'' @ [CHR 0x27] @
      '' above, determine if you can answer the '' @ [CHR 0x27] @ ''Original User Query'' @
      [CHR 0x27] @ ''.'' @ [CHR 0x0A, CHR 0x0A] @
      ''- If the scraped text directly answers the query, respond with '' @ [CHR 0x22] @
      ''Final Answer:'' @ [CHR 0x22] @ '' followed by your answer.'' @ [CHR 0x0A] @
      ''- If the scraped text is insufficient or irrelevant, respond *only* with: '' @
      [CHR 0x22] @ ''Insufficient context'' @ [CHR 0x22, CHR 0x0A, CHR 0x0A] @
      ''Important:'' @ [CHR 0x0A] @
      ''- Use only information from the scraped text, not prior knowledge.'' @ [CHR 0x0A] @
      ''- Do not infer information not explicitly stated in the text.'' @ [CHR 0x0A] @
      ''- If the query asks for specific details missing from the text, it is insufficient.'' @
      [CHR 0x0A, CHR 0x0A] @
      ''Example 1:'' @ [CHR 0x0A] @
      ''Query: '' @ [CHR 0x22] @ ''What is the capital of France?'' @ [CHR 0x22] @ '' '' @
      [CHR 0x0A] @
      ''Text: '' @ [CHR 0x22] @
      ''France is a country in Europe known for its cuisine and landmarks like the Eiffel Tower.'' @
      [CHR 0x22, CHR 0x0A] @
      ''Response: '' @ [CHR 0x22] @ ''Insufficient context'' @ [CHR 0x22, CHR 0x0A, CHR 0x0A] @
      ''Example 2:'' @ [CHR 0x0A] @
      ''Query: '' @ [CHR 0x22] @ ''When was the iPhone 15 Pro Max released?'' @ [CHR 0x22] @
      '' '' @ [CHR 0x0A] @
      ''Text: '' @ [CHR 0x22] @ ''The iPhone 7 was released in 2016 with no headphone jack.'' @
      [CHR 0x22, CHR 0x0A] @
      ''Response: '' @ [CHR 0x22] @ ''Insufficient context'' @ [CHR 0x22, CHR 0x0A]"

text \<open>\<open>SUFFICIENCY_CHECK_PROMPT_TEMPLATE.format(query=..., url=..., scraped_text=...)\<close>\<close>

definition format_prompt :: "string \<Rightarrow> string \<Rightarrow> string \<Rightarrow> string" where
  "format_prompt query url scraped_text =
     template_head @ query @ template_url @ url @ template_text @ scraped_text @ template_tail"

section \<open>Collaborators\<close>

text \<open>
  An instance of Python's \<open>Exception\<close> class with its message; these are what the
  \<open>except Exception\<close> clauses of the loop catch.
\<close>

datatype exception = Exception string

text \<open>The status notices of \<open>run_search_session\<close>, one constructor per f-string.\<close>

datatype message =
    AttemptMsg nat int string
  | ScrapingMsg
  | NoContentMsg string
  | ScrapeOkMsg nat
  | ScrapeErrMsg string exception
  | AnalyzingMsg
  | FoundMsg string
  | InsufficientMsg string
  | AnalysisErrMsg string exception
  | FinishedMsg string

text \<open>
  The calls a session makes to the outside, each with what came back: the fetch
  (\<open>scrape_single_url\<close>: raises, returns \<open>None\<close>, or returns text), the judge
  (\<open>query_chat_model\<close>: raises or returns text), and the two halves of a status update
  (\<open>status_callback(message)\<close> and \<open>status_placeholder.info(...)\<close>: raise or return).
\<close>

datatype event =
    Scraped string "exception + string option"
  | Queried string "exception + string"
  | Callback message "exception option"
  | Info "exception option"

text \<open>
  The collaborators are outside the program, so each is a function of its argument and
  of the history of all calls made so far: nothing is assumed about them. The record
  also holds the configured model name and the attribute table of dictionary objects
  (the methods of the built-in type, by name), which the interpreter fixes.
\<close>

record env =
  scrape_single_url :: "event list \<Rightarrow> string \<Rightarrow> exception + string option"
  query_chat_model :: "event list \<Rightarrow> string \<Rightarrow> exception + string"
  status_callback :: "event list \<Rightarrow> message \<Rightarrow> exception option"
  placeholder_info :: "event list \<Rightarrow> exception option"
  CHAT_MODEL :: string
  dict_attribute :: "string \<Rightarrow> pyval option"

section \<open>agent.py: update\_status\<close>

text \<open>
  \<open>status_callback(message)\<close>, then \<open>status_placeholder.info(...)\<close> with the joined
  messages of the session state as its argument (reading them is part of the second
  call); an exception of the first call skips the second. The result is the exception
  raised, if any, and the extended history.
\<close>

definition update_status :: "env \<Rightarrow> event list \<Rightarrow> message \<Rightarrow> exception option \<times> event list" where
  "update_status env tr msg =
     (let r = status_callback env tr msg;
          tr1 = tr @ [Callback msg r]
      in case r of
           Some e \<Rightarrow> (Some e, tr1)
         | None \<Rightarrow> (let r2 = placeholder_info env tr1 in (r2, tr1 @ [Info r2])))"

section \<open>agent.py: run\_search\_session\<close>

text \<open>How control leaves one pass of the loop body.\<close>

datatype flow = Continue | Return string | Raise exception

text \<open>\<open>scraped_text[:max_context_length]\<close>: a bound that is no index raises \<open>TypeError\<close>.\<close>

definition str_slice_to :: "string \<Rightarrow> pyval \<Rightarrow> exception + string" where
  "str_slice_to s v =
     (case v of
        PyInt k \<Rightarrow> Inr (slice_to s k)
      | PyNone \<Rightarrow> Inr s
      | PyObject \<Rightarrow> Inl (Exception ''slice indices must be integers or None or have an __index__ method''))"

definition source_ref :: "string \<Rightarrow> string" where
  "source_ref url = [CHR 0x0A, CHR 0x0A] @ ''---'' @ [CHR 0x0A] @ ''*Source: '' @ url @ ''*''"

text \<open>
  The body of the first \<open>try\<close> (lines 106 to 111). \<open>Inl e\<close>: an exception reached the
  \<open>except\<close> clause; \<open>Inr None\<close>: \<open>continue\<close> was executed; \<open>Inr (Some text)\<close>: the block
  ended with \<open>scraped_text = text\<close>.
\<close>

definition scrape_try :: "env \<Rightarrow> string \<Rightarrow> event list \<Rightarrow> (exception + string option) \<times> event list" where
  "scrape_try env url tr =
     (let r = scrape_single_url env tr url;
          tr1 = tr @ [Scraped url r]
      in case r of
           Inl e \<Rightarrow> (Inl e, tr1)
         | Inr scraped_text \<Rightarrow>
             if (case scraped_text of None \<Rightarrow> True | Some t \<Rightarrow> t = [] \<or> str_strip t = [])
             then (case update_status env tr1 (NoContentMsg url) of
                     (Some e, tr2) \<Rightarrow> (Inl e, tr2)
                   | (None, tr2) \<Rightarrow> (Inr None, tr2))
             else (case update_status env tr1
                          (ScrapeOkMsg (case scraped_text of None \<Rightarrow> 0 | Some t \<Rightarrow> length t)) of
                     (Some e, tr2) \<Rightarrow> (Inl e, tr2)
                   | (None, tr2) \<Rightarrow> (Inr scraped_text, tr2)))"

text \<open>
  The body of the second \<open>try\<close> (lines 121 to 138). \<open>Inl e\<close>: an exception reached the
  \<open>except\<close> clause; \<open>Inr (Some a)\<close>: \<open>return a, tried_urls\<close> was executed;
  \<open>Inr None\<close>: the block ended.
\<close>

definition analyze_try ::
  "env \<Rightarrow> string \<Rightarrow> string \<Rightarrow> string \<Rightarrow> event list \<Rightarrow> (exception + string option) \<times> event list" where
  "analyze_try env query url scraped_text tr =
     (let max_context_length =
            getattr_dict (dict_attribute env) MAX_LLM_CONTEXT_LENGTH (CHAT_MODEL env) (PyInt 15000)
      in case str_slice_to scraped_text max_context_length of
           Inl e \<Rightarrow> (Inl e, tr)
         | Inr truncated \<Rightarrow>
             (let prompt = format_prompt query url truncated;
                  r = query_chat_model env tr prompt;
                  tr1 = tr @ [Queried prompt r]
              in case r of
                   Inl e \<Rightarrow> (Inl e, tr1)
                 | Inr llm_response \<Rightarrow>
                     (case parse_llm_sufficiency_response llm_response of
                        (final_answer, is_sufficient) \<Rightarrow>
                          if is_sufficient \<and> final_answer \<noteq> None \<and> final_answer \<noteq> Some []
                          then (case update_status env tr1 (FoundMsg url) of
                                  (Some e, tr2) \<Rightarrow> (Inl e, tr2)
                                | (None, tr2) \<Rightarrow>
                                    (Inr (Some ((case final_answer of None \<Rightarrow> [] | Some a \<Rightarrow> a)
                                                @ source_ref url)), tr2))
                          else (case update_status env tr1 (InsufficientMsg url) of
                                  (Some e, tr2) \<Rightarrow> (Inl e, tr2)
                                | (None, tr2) \<Rightarrow> (Inr None, tr2)))))"

text \<open>
  One pass of the loop body (lines 100 to 141) for \<open>url\<close>, from the list of tried URLs
  and the call history so far; it gives back how control left the body, the list of
  tried URLs and the history.
\<close>

definition attempt ::
  "env \<Rightarrow> string \<Rightarrow> int \<Rightarrow> nat \<Rightarrow> string \<Rightarrow> string list \<Rightarrow> event list
     \<Rightarrow> flow \<times> string list \<times> event list" where
  "attempt env query max_attempts attempt_count url tried_urls0 tr =
     (let tried_urls = tried_urls0 @ [url]
      in case update_status env tr (AttemptMsg attempt_count max_attempts url) of
           (Some e, tr1) \<Rightarrow> (Raise e, tried_urls, tr1)
         | (None, tr1) \<Rightarrow>
        (case update_status env tr1 ScrapingMsg of
           (Some e, tr2) \<Rightarrow> (Raise e, tried_urls, tr2)
         | (None, tr2) \<Rightarrow>
        (case scrape_try env url tr2 of
           (Inl scrape_err, tr3) \<Rightarrow>
             (case update_status env tr3 (ScrapeErrMsg url scrape_err) of
                (Some e, tr4) \<Rightarrow> (Raise e, tried_urls, tr4)
              | (None, tr4) \<Rightarrow> (Continue, tried_urls, tr4))
         | (Inr None, tr3) \<Rightarrow> (Continue, tried_urls, tr3)
         | (Inr (Some scraped_text), tr3) \<Rightarrow>
        (case update_status env tr3 AnalyzingMsg of
           (Some e, tr4) \<Rightarrow> (Raise e, tried_urls, tr4)
         | (None, tr4) \<Rightarrow>
        (case analyze_try env query url scraped_text tr4 of
           (Inl llm_err, tr5) \<Rightarrow>
             (case update_status env tr5 (AnalysisErrMsg url llm_err) of
                (Some e, tr6) \<Rightarrow> (Raise e, tried_urls, tr6)
              | (None, tr6) \<Rightarrow> (Continue, tried_urls, tr6))
         | (Inr (Some answer), tr5) \<Rightarrow> (Return answer, tried_urls, tr5)
         | (Inr None, tr5) \<Rightarrow> (Continue, tried_urls, tr5))))))"

text \<open>
  \<open>for attempt_count, url in enumerate(urls_to_try, 1)\<close>: the passes run in order until
  one returns or raises; \<open>Continue\<close> as the result says that the list was used up.
\<close>

fun for_loop ::
  "env \<Rightarrow> string \<Rightarrow> int \<Rightarrow> nat \<Rightarrow> string list \<Rightarrow> string list \<Rightarrow> event list
     \<Rightarrow> flow \<times> string list \<times> event list" where
  "for_loop env query max_attempts attempt_count [] tried_urls tr = (Continue, tried_urls, tr)"
| "for_loop env query max_attempts attempt_count (url # rest) tried_urls tr =
     (case attempt env query max_attempts attempt_count url tried_urls tr of
        (Continue, tried_urls', tr') \<Rightarrow>
          for_loop env query max_attempts (Suc attempt_count) rest tried_urls' tr'
      | (Return a, tried_urls', tr') \<Rightarrow> (Return a, tried_urls', tr')
      | (Raise e, tried_urls', tr') \<Rightarrow> (Raise e, tried_urls', tr'))"

definition failure_message :: "string list \<Rightarrow> string" where
  "failure_message tried_urls =
     ''Could not find a sufficient answer after trying '' @ str_nat (length tried_urls) @ '' URL(s).''"

text \<open>
  The session: the result is \<open>Inr (text, tried_urls)\<close> when the function returns and
  \<open>Inl e\<close> when an exception leaves it; the second component is the history of the
  calls made.
\<close>

definition run_search_session ::
  "env \<Rightarrow> string \<Rightarrow> string list \<Rightarrow> int \<Rightarrow> (exception + string \<times> string list) \<times> event list" where
  "run_search_session env query urls max_attempts =
     (let urls_to_try = slice_to urls max_attempts
      in case for_loop env query max_attempts 1 urls_to_try [] [] of
           (Return a, tried_urls, tr) \<Rightarrow> (Inr (a, tried_urls), tr)
         | (Raise e, tried_urls, tr) \<Rightarrow> (Inl e, tr)
         | (Continue, tried_urls, tr) \<Rightarrow>
             (case update_status env tr (FinishedMsg (failure_message tried_urls)) of
                (Some e, tr') \<Rightarrow> (Inl e, tr')
              | (None, tr') \<Rightarrow> (Inr (failure_message tried_urls, tried_urls), tr')))"

section \<open>Reading a call history\<close>

text \<open>The URLs fetched, in call order.\<close>

fun scraped_urls :: "event list \<Rightarrow> string list" where
  "scraped_urls [] = []"
| "scraped_urls (Scraped url r # tr) = url # scraped_urls tr"
| "scraped_urls (ev # tr) = scraped_urls tr"

text \<open>A judge reply that the parser reads as a sufficient verdict with a non-empty answer.\<close>

definition sufficient :: "string \<Rightarrow> string \<Rightarrow> bool" where
  "sufficient llm_response a = (parse_llm_sufficiency_response llm_response = (Some a, True) \<and> a \<noteq> [])"



text \<open>No status update raises.\<close>

definition sink_ok :: "env \<Rightarrow> bool" where
  "sink_ok env = ((\<forall>tr msg. status_callback env tr msg = None) \<and> (\<forall>tr. placeholder_info env tr = None))"

text \<open>
  The calls of a pass that fetches \<open>scraped_text\<close> from \<open>url\<close>, sends \<open>prompt\<close> to the
  judge and reads \<open>llm_response\<close> as a sufficient verdict, when no status update raises.
\<close>

definition answer_block :: "int \<Rightarrow> nat \<Rightarrow> string \<Rightarrow> string \<Rightarrow> string \<Rightarrow> string \<Rightarrow> event list" where
  "answer_block max_attempts attempt_count url scraped_text prompt llm_response =
     [Callback (AttemptMsg attempt_count max_attempts url) None, Info None,
      Callback ScrapingMsg None, Info None,
      Scraped url (Inr (Some scraped_text)),
      Callback (ScrapeOkMsg (length scraped_text)) None, Info None,
      Callback AnalyzingMsg None, Info None,
      Queried prompt (Inr llm_response),
      Callback (FoundMsg url) None, Info None]"

text \<open>A status update that raised \<open>e\<close>.\<close>

fun sink_raised :: "exception \<Rightarrow> event \<Rightarrow> bool" where
  "sink_raised e (Callback msg r) = (r = Some e)"
| "sink_raised e (Info r) = (r = Some e)"
| "sink_raised e ev = False"

text \<open>A status update that raised.\<close>

fun sink_failed :: "event \<Rightarrow> bool" where
  "sink_failed (Callback msg r) = (r \<noteq> None)"
| "sink_failed (Info r) = (r \<noteq> None)"
| "sink_failed ev = False"

text \<open>A history in which no status update raised.\<close>

definition quiet :: "event list \<Rightarrow> bool" where
  "quiet tr = list_all (\<lambda>ev. \<not> sink_failed ev) tr"


section \<open>Concrete sessions\<close>

text \<open>
  The mixed-failure scenario: the fetch of \<open>urlA\<close> raises, the judge raises on the second
  page, and answers on any other.
\<close>

definition mixed_env :: env where
  "mixed_env =
     \<lparr> scrape_single_url =
         (\<lambda>tr url. if url = ''urlA'' then Inl (Exception ''timeout'') else Inr (Some ''page text'')),
       query_chat_model =
         (\<lambda>tr prompt. if length (scraped_urls tr) = 2 then Inl (Exception ''Model query failed'')
                       else Inr ''Final Answer: Y''),
       status_callback = (\<lambda>tr msg. None),
       placeholder_info = (\<lambda>tr. None),
       CHAT_MODEL = ''gemma3:4b'',
       dict_attribute = (\<lambda>name. None) \<rparr>"

text \<open>Every page is fetched and judged insufficient.\<close>

definition insufficient_env :: env where
  "insufficient_env =
     \<lparr> scrape_single_url = (\<lambda>tr url. Inr (Some ''page text'')),
       query_chat_model = (\<lambda>tr prompt. Inr ''Insufficient context''),
       status_callback = (\<lambda>tr msg. None),
       placeholder_info = (\<lambda>tr. None),
       CHAT_MODEL = ''gemma3:4b'',
       dict_attribute = (\<lambda>name. None) \<rparr>"


text \<open>
  Every page holds the answer, and the status callback raises on the notice that
  announces it.
\<close>

definition flaky_sink_env :: env where
  "flaky_sink_env =
     \<lparr> scrape_single_url = (\<lambda>tr url. Inr (Some ''page text'')),
       query_chat_model = (\<lambda>tr prompt. Inr ''Final Answer: Y''),
       status_callback =
         (\<lambda>tr msg. case msg of FoundMsg url \<Rightarrow> Some (Exception ''sink failure'') | _ \<Rightarrow> None),
       placeholder_info = (\<lambda>tr. None),
       CHAT_MODEL = ''gemma3:4b'',
       dict_attribute = (\<lambda>name. None) \<rparr>"


section \<open>The parser\<close>

lemma str_startswith_prefix: "str_startswith s sub = prefix sub s"
  by (induction s sub rule: str_startswith.induct) auto

lemma find_from_found:
  "find_from s sub i = r \<Longrightarrow> r \<noteq> - 1 \<Longrightarrow> 0 \<le> i \<Longrightarrow>
     \<exists>n. r = i + int n \<and> n \<le> length s \<and> prefix sub (drop n s) \<and> (\<forall>j<n. \<not> prefix sub (drop j s))"
proof (induction s arbitrary: i)
  case Nil
  then show ?case by (auto split: if_splits)
next
  case (Cons c s)
  show ?case
  proof (cases "prefix sub (c # s)")
    case True
    with Cons.prems show ?thesis by (intro exI [of _ 0]) (simp add: str_startswith_prefix)
  next
    case False
    with Cons.prems have "find_from s sub (i + 1) = r" by (simp add: str_startswith_prefix)
    from Cons.IH [OF this] Cons.prems obtain n where
      n: "r = i + 1 + int n" "n \<le> length s" "prefix sub (drop n s)" "\<forall>j<n. \<not> prefix sub (drop j s)"
      by auto
    have "\<forall>j<Suc n. \<not> prefix sub (drop j (c # s))"
    proof (intro allI impI)
      fix j assume "j < Suc n"
      then show "\<not> prefix sub (drop j (c # s))"
        using False n(4) by (cases j) auto
    qed
    with n show ?thesis by (intro exI [of _ "Suc n"]) simp
  qed
qed

lemma str_find_found:
  assumes "str_find s sub \<noteq> - 1"
  shows "\<exists>n. str_find s sub = int n \<and> n \<le> length s \<and> prefix sub (drop n s) \<and>
             (\<forall>j<n. \<not> prefix sub (drop j s))"
  using find_from_found [of s sub 0 "str_find s sub"] assms by (simp add: str_find_def)

text \<open>
  C6. The parser is total: none of the string operations it uses can raise, so the model
  has no error result, and for every string \<open>S\<close> the result is one of the two verdicts,
  \<open>(None, False)\<close> or \<open>(Some a, True)\<close> with \<open>a\<close> non-empty. When the marker occurs more
  than once the first occurrence decides: the answer is cut at the least index at which
  the marker occurs in the stripped lower-case copy.
\<close>

theorem parse_total:
  "(parse_llm_sufficiency_response S = (None, False) \<or>
      (\<exists>a. a \<noteq> [] \<and> parse_llm_sufficiency_response S = (Some a, True))) \<and>
   (\<forall>a. parse_llm_sufficiency_response S = (Some a, True) \<longrightarrow>
      (\<exists>n. prefix final_answer_marker (drop n (str_strip (str_lower S))) \<and>
           (\<forall>j<n. \<not> prefix final_answer_marker (drop j (str_strip (str_lower S)))) \<and>
           a = str_strip (drop (n + length final_answer_marker) S)))"
proof (cases "str_strip (str_lower S) \<noteq> ''insufficient context'' \<and>
              str_find (str_strip (str_lower S)) final_answer_marker \<noteq> - 1")
  case False
  then have "parse_llm_sufficiency_response S = (None, False)"
    by (auto simp: parse_llm_sufficiency_response_def Let_def)
  then show ?thesis by simp
next
  case True
  with str_find_found obtain n where
    n: "str_find (str_strip (str_lower S)) final_answer_marker = int n"
       "prefix final_answer_marker (drop n (str_strip (str_lower S)))"
       "\<forall>j<n. \<not> prefix final_answer_marker (drop j (str_strip (str_lower S)))"
    by blast
  have sl: "slice_from S (int n + int (length final_answer_marker)) = drop (n + length final_answer_marker) S"
    by (simp add: slice_from_def nat_add_distrib)
  have "parse_llm_sufficiency_response S =
          (if str_strip (drop (n + length final_answer_marker) S) \<noteq> []
           then (Some (str_strip (drop (n + length final_answer_marker) S)), True) else (None, False))"
    using True n(1) sl by (simp add: parse_llm_sufficiency_response_def Let_def)
  with n show ?thesis by auto
qed

theorem parse_total_witness:
  "parse_llm_sufficiency_response [] = (None, False) \<and>
   parse_llm_sufficiency_response ''Final Answer: A. Final Answer: B'' = (Some ''A. Final Answer: B'', True) \<and>
   (\<exists>n. prefix final_answer_marker (drop n (str_strip (str_lower ''Final Answer: A. Final Answer: B''))) \<and>
        (\<forall>j<n. \<not> prefix final_answer_marker (drop j (str_strip (str_lower ''Final Answer: A. Final Answer: B'')))) \<and>
        ''A. Final Answer: B'' = str_strip (drop (n + length final_answer_marker) ''Final Answer: A. Final Answer: B''))"
proof -
  have e: "parse_llm_sufficiency_response ''Final Answer: A. Final Answer: B'' = (Some ''A. Final Answer: B'', True)"
    by code_simp
  have n: "parse_llm_sufficiency_response [] = (None, False)"
    by code_simp
  from parse_total [of "''Final Answer: A. Final Answer: B''"] e n show ?thesis
    by blast
qed

text \<open>
  C7. The five examples of the specification: an answer after the marker, a marker with
  nothing after it, the insufficiency phrase in two casings, and a reply with no marker.
\<close>

theorem parse_examples:
  "parse_llm_sufficiency_response ''Final Answer: Paris'' = (Some ''Paris'', True) \<and>
   parse_llm_sufficiency_response ''FINAL ANSWER:   '' = (None, False) \<and>
   parse_llm_sufficiency_response ''Insufficient context'' = (None, False) \<and>
   parse_llm_sufficiency_response ''insufficient context'' = (None, False) \<and>
   parse_llm_sufficiency_response ''I think the answer is 5'' = (None, False)"
  by code_simp

text \<open>
  C5. The marker is searched in the lower-case copy after that copy was stripped, and the
  index found there is used in the unstripped reply. With two leading blanks the cut
  falls two characters early: the answer is \<open>r: Paris\<close>, not \<open>Paris\<close>.
\<close>

theorem parse_leading_whitespace:
  "parse_llm_sufficiency_response ''  Final Answer: Paris'' = (Some ''r: Paris'', True)"
  by code_simp

text \<open>
  The cut is right when the reply has no leading whitespace: then the answer is the text
  after the first occurrence of the marker in the lower-case copy of the reply, stripped.
  Trailing whitespace does no harm.
\<close>

lemma isspace_lower_char: "str_isspace (lower_char c) = str_isspace c"
proof -
  have "of_char (char_of (of_char c + 32 :: nat)) = (of_char c + 32 :: nat)"
    if "(of_char c :: nat) \<le> 222" using that by simp
  then show ?thesis
    by (auto simp: str_isspace_def lower_char_def Let_def)
qed

lemma lstrip_lower: "str_lstrip (str_lower S) = str_lower (str_lstrip S)"
  by (simp add: str_lstrip_def str_lower_def dropWhile_map comp_def isspace_lower_char)

lemma rstrip_decomp: "\<exists>W. s = str_rstrip s @ W \<and> (\<forall>c\<in>set W. str_isspace c)"
proof -
  have "rev s = takeWhile str_isspace (rev s) @ dropWhile str_isspace (rev s)" by simp
  then have "s = rev (dropWhile str_isspace (rev s)) @ rev (takeWhile str_isspace (rev s))"
    by (metis rev_append rev_rev_ident)
  moreover have "\<forall>c\<in>set (rev (takeWhile str_isspace (rev s))). str_isspace c"
    by (auto dest: set_takeWhileD)
  ultimately show ?thesis unfolding str_rstrip_def by blast
qed

lemma find_from_first:
  "prefix sub (drop n s) \<Longrightarrow> \<forall>j<n. \<not> prefix sub (drop j s) \<Longrightarrow> n \<le> length s \<Longrightarrow>
     find_from s sub i = i + int n"
proof (induction s arbitrary: n i)
  case Nil
  then show ?case by simp
next
  case (Cons c s)
  show ?case
  proof (cases n)
    case 0
    with Cons.prems show ?thesis by (simp add: str_startswith_prefix)
  next
    case (Suc m)
    with Cons.prems have np: "\<not> prefix sub (c # s)" by (metis drop0 zero_less_Suc)
    have "\<forall>j<m. \<not> prefix sub (drop j s)"
      using Cons.prems(2) Suc by (metis Suc_less_eq drop_Suc_Cons)
    with Cons.IH [of m "i + 1"] Cons.prems Suc have "find_from s sub (i + 1) = i + 1 + int m"
      by simp
    with np Suc show ?thesis by (simp add: str_startswith_prefix)
  qed
qed

lemma occurrence_in_rstrip:
  assumes s: "s = r @ W" and W: "\<forall>c\<in>set W. str_isspace c"
    and occ: "prefix m (drop n s)" and ne: "m \<noteq> []" and last: "\<not> str_isspace (last m)"
  shows "prefix m (drop n r)"
proof -
  from occ obtain rest where rest: "drop n s = m @ rest"
    by (auto simp: prefix_def)
  then have len: "n + length m \<le> length s"
    by (metis add.commute add_le_cancel_left drop_all le_add1 length_append length_drop
        linorder_not_le list.size(3) ne append_is_Nil_conv diff_add_inverse le_add_diff_inverse2 nat_le_linear)
  have "n + length m \<le> length r"
  proof (rule ccontr)
    assume "\<not> n + length m \<le> length r"
    then have k: "length r \<le> n + length m - 1" "n + length m - 1 < length s"
      using len ne by (auto simp: Suc_le_eq)
    have "s ! (n + length m - 1) = (drop n s) ! (length m - 1)"
      using len ne by (simp add: Suc_le_eq)
    also have "\<dots> = m ! (length m - 1)"
      using rest ne by (simp add: nth_append)
    also have "\<dots> = last m" using ne by (simp add: last_conv_nth)
    finally have "s ! (n + length m - 1) = last m" .
    moreover have "s ! (n + length m - 1) \<in> set W"
      using k s by (auto simp: nth_append)
    ultimately show False using W last by auto
  qed
  then have "drop n s = drop n r @ W" "length m \<le> length (drop n r)"
    using s by simp_all
  with rest show ?thesis
    by (metis prefix_def append_eq_append_conv_if append_take_drop_id)
qed

lemma parse_after_marker:
  assumes nolead: "str_lstrip S = S"
    and occ: "prefix final_answer_marker (drop n (str_lower S))"
    and first: "\<forall>j<n. \<not> prefix final_answer_marker (drop j (str_lower S))"
    and rem: "str_strip (drop (n + length final_answer_marker) S) \<noteq> []"
  shows "parse_llm_sufficiency_response S =
           (Some (str_strip (drop (n + length final_answer_marker) S)), True)"
proof -
  let ?L = "str_lower S" and ?R = "str_strip (str_lower S)"
  have R: "?R = str_rstrip ?L"
    by (simp add: str_strip_def lstrip_lower nolead)
  from rstrip_decomp [of ?L] R obtain W where
    W: "?L = ?R @ W" "\<forall>c\<in>set W. str_isspace c"
    by auto
  have m: "final_answer_marker \<noteq> []" "\<not> str_isspace (last final_answer_marker)"
    by (simp_all add: final_answer_marker_def str_isspace_def)
  have occR: "prefix final_answer_marker (drop n ?R)"
    using occurrence_in_rstrip [OF W occ m] .
  then have nR: "n \<le> length ?R"
    using m(1) by (metis drop_all nat_le_linear prefix_Nil)
  have firstR: "\<forall>j<n. \<not> prefix final_answer_marker (drop j ?R)"
  proof (intro allI impI notI)
    fix j assume j: "j < n" and p: "prefix final_answer_marker (drop j ?R)"
    from j nR have "drop j ?L = drop j ?R @ W"
      by (subst W(1)) simp
    with p have "prefix final_answer_marker (drop j ?L)"
      by (simp add: prefix_prefix)
    with first j show False by blast
  qed
  have pos: "str_find ?R final_answer_marker = int n"
    using find_from_first [OF occR firstR nR, of 0] by (simp add: str_find_def)
  have "CHR '':'' \<in> set (drop n ?R)"
    using occR by (auto simp: prefix_def final_answer_marker_def)
  then have "CHR '':'' \<in> set ?R"
    by (meson in_set_dropD)
  then have ne: "?R \<noteq> ''insufficient context''"
    by auto
  have sl: "slice_from S (int n + int (length final_answer_marker)) = drop (n + length final_answer_marker) S"
    by (simp add: slice_from_def nat_add_distrib)
  show ?thesis
    using ne pos sl rem by (simp add: parse_llm_sufficiency_response_def Let_def)
qed

lemma parse_trailing_whitespace:
  "parse_llm_sufficiency_response ''Final Answer: Paris  '' = (Some ''Paris'', True)"
  by code_simp

section \<open>The loop when no status update raises\<close>

lemma update_status_ok:
  "sink_ok env \<Longrightarrow> update_status env tr msg = (None, tr @ [Callback msg None, Info None])"
  by (simp add: sink_ok_def update_status_def)

lemma scraped_urls_append [simp]: "scraped_urls (xs @ ys) = scraped_urls xs @ scraped_urls ys"
  by (induction xs rule: scraped_urls.induct) simp_all




lemma slice_to_take: "\<exists>c. slice_to xs k = take c xs"
  by (auto simp: slice_to_def)








lemma scraped_urls_answer_block [simp]: "scraped_urls (answer_block k n url t p resp) = [url]"
  by (simp add: answer_block_def)


section \<open>The loop with any collaborators\<close>

lemma update_status_trace:
  "update_status env tr msg = (r, tr') \<Longrightarrow>
     \<exists>evs. tr' = tr @ evs \<and> evs \<noteq> [] \<and> scraped_urls evs = [] \<and>
           (\<forall>e. r = Some e \<longrightarrow> sink_raised e (last evs)) \<and> (r = None \<longrightarrow> last evs = Info None)"
  by (auto simp: update_status_def Let_def split: option.splits)

lemma scrape_try_trace:
  "scrape_try env url tr = (r, tr') \<Longrightarrow>
     \<exists>evs. tr' = tr @ evs \<and> evs \<noteq> [] \<and> scraped_urls evs = [url] \<and>
           ((\<exists>x. r = Inr x) \<longrightarrow> last evs = Info None)"
  unfolding scrape_try_def update_status_def Let_def
  by (auto split: sum.splits option.splits prod.splits if_splits)

lemma analyze_try_trace:
  "analyze_try env q url text tr = (r, tr') \<Longrightarrow>
     \<exists>evs. tr' = tr @ evs \<and> scraped_urls evs = [] \<and>
           ((\<exists>x. r = Inr x) \<longrightarrow> evs \<noteq> [] \<and> last evs = Info None)"
  unfolding analyze_try_def update_status_def Let_def
  by (auto split: sum.splits option.splits prod.splits if_splits pyval.splits)

lemma attempt_trace:
  assumes "attempt env q k n url tried tr = (f, tried', tr')"
  shows "tried' = tried @ [url] \<and>
         (\<exists>evs. tr' = tr @ evs \<and> evs \<noteq> [] \<and>
            (scraped_urls evs = [url] \<or> scraped_urls evs = [] \<and> (\<exists>e. f = Raise e)) \<and>
            (\<forall>e. f = Raise e \<longrightarrow> sink_raised e (last evs)) \<and>
            ((\<forall>e. f \<noteq> Raise e) \<longrightarrow> last evs = Info None))"
proof -
  obtain r1 tr1 where u1: "update_status env tr (AttemptMsg n k url) = (r1, tr1)"
    by (metis surj_pair)
  from update_status_trace [OF u1] obtain e1 where
    e1: "tr1 = tr @ e1" "e1 \<noteq> []" "scraped_urls e1 = []"
        "\<forall>e. r1 = Some e \<longrightarrow> sink_raised e (last e1)" "r1 = None \<longrightarrow> last e1 = Info None"
    by blast
  show ?thesis
  proof (cases r1)
    case (Some e)
    with assms u1 e1 show ?thesis by (auto simp: attempt_def Let_def)
  next
    case None
    obtain r2 tr2 where u2: "update_status env tr1 ScrapingMsg = (r2, tr2)"
      by (metis surj_pair)
    from update_status_trace [OF u2] obtain e2 where
      e2: "tr2 = tr1 @ e2" "e2 \<noteq> []" "scraped_urls e2 = []"
          "\<forall>e. r2 = Some e \<longrightarrow> sink_raised e (last e2)" "r2 = None \<longrightarrow> last e2 = Info None"
      by blast
    show ?thesis
    proof (cases r2)
      case (Some e)
      with assms u1 u2 None e1 e2 show ?thesis
        by (intro conjI exI [of _ "e1 @ e2"]) (auto simp: attempt_def Let_def)
    next
      case r2: None
      obtain r3 tr3 where u3: "scrape_try env url tr2 = (r3, tr3)"
        by (metis surj_pair)
      from scrape_try_trace [OF u3] obtain e3 where
        e3: "tr3 = tr2 @ e3" "e3 \<noteq> []" "scraped_urls e3 = [url]"
            "(\<exists>x. r3 = Inr x) \<longrightarrow> last e3 = Info None"
        by blast
      have pre: "scraped_urls (e1 @ e2 @ e3) = [url]" "tr3 = tr @ e1 @ e2 @ e3"
        using e1 e2 e3 by simp_all
      show ?thesis
      proof (cases r3)
        case (Inl scrape_err)
        obtain r4 tr4 where u4: "update_status env tr3 (ScrapeErrMsg url scrape_err) = (r4, tr4)"
          by (metis surj_pair)
        from update_status_trace [OF u4] obtain e4 where
          e4: "tr4 = tr3 @ e4" "e4 \<noteq> []" "scraped_urls e4 = []"
              "\<forall>e. r4 = Some e \<longrightarrow> sink_raised e (last e4)" "r4 = None \<longrightarrow> last e4 = Info None"
          by blast
        have res: "(f, tried', tr') = ((case r4 of Some e \<Rightarrow> Raise e | None \<Rightarrow> Continue), tried @ [url], tr4)"
          using assms u1 u2 u3 u4 None r2 Inl by (auto simp: attempt_def Let_def split: option.splits)
        show ?thesis using res pre e4
          by (intro conjI exI [of _ "e1 @ e2 @ e3 @ e4"]) (auto split: option.splits)
      next
        case (Inr st)
        show ?thesis
        proof (cases st)
          case n: None
          have res: "(f, tried', tr') = (Continue, tried @ [url], tr3)"
            using assms u1 u2 u3 None r2 Inr n by (simp add: attempt_def Let_def)
          show ?thesis using res pre e3 Inr
            by (intro conjI exI [of _ "e1 @ e2 @ e3"]) auto
        next
          case (Some scraped_text)
          obtain r4 tr4 where u4: "update_status env tr3 AnalyzingMsg = (r4, tr4)"
            by (metis surj_pair)
          from update_status_trace [OF u4] obtain e4 where
            e4: "tr4 = tr3 @ e4" "e4 \<noteq> []" "scraped_urls e4 = []"
                "\<forall>e. r4 = Some e \<longrightarrow> sink_raised e (last e4)" "r4 = None \<longrightarrow> last e4 = Info None"
            by blast
          show ?thesis
          proof (cases r4)
            case s4: (Some e)
            have res: "(f, tried', tr') = (Raise e, tried @ [url], tr4)"
              using assms u1 u2 u3 u4 None r2 Inr Some s4 by (simp add: attempt_def Let_def)
            show ?thesis using res pre e4 s4
              by (intro conjI exI [of _ "e1 @ e2 @ e3 @ e4"]) auto
          next
            case n4: None
            obtain r5 tr5 where u5: "analyze_try env q url scraped_text tr4 = (r5, tr5)"
              by (metis surj_pair)
            from analyze_try_trace [OF u5] obtain e5 where
              e5: "tr5 = tr4 @ e5" "scraped_urls e5 = []"
                  "(\<exists>x. r5 = Inr x) \<longrightarrow> e5 \<noteq> [] \<and> last e5 = Info None"
              by blast
            show ?thesis
            proof (cases r5)
              case (Inl llm_err)
              obtain r6 tr6 where u6: "update_status env tr5 (AnalysisErrMsg url llm_err) = (r6, tr6)"
                by (metis surj_pair)
              from update_status_trace [OF u6] obtain e6 where
                e6: "tr6 = tr5 @ e6" "e6 \<noteq> []" "scraped_urls e6 = []"
                    "\<forall>e. r6 = Some e \<longrightarrow> sink_raised e (last e6)" "r6 = None \<longrightarrow> last e6 = Info None"
                by blast
              have res: "(f, tried', tr') = ((case r6 of Some e \<Rightarrow> Raise e | None \<Rightarrow> Continue), tried @ [url], tr6)"
                using assms u1 u2 u3 u4 u5 u6 None r2 Inr Some n4 Inl
                by (auto simp: attempt_def Let_def split: option.splits)
              show ?thesis using res pre e4 e5 e6
                by (intro conjI exI [of _ "e1 @ e2 @ e3 @ e4 @ e5 @ e6"]) (auto split: option.splits)
            next
              case i5: (Inr ans)
              have res: "(f, tried', tr') = ((case ans of Some a \<Rightarrow> Return a | None \<Rightarrow> Continue), tried @ [url], tr5)"
                using assms u1 u2 u3 u4 u5 None r2 Inr Some n4 i5
                by (auto simp: attempt_def Let_def split: option.splits)
              show ?thesis using res pre e4 e5 i5
                by (intro conjI exI [of _ "e1 @ e2 @ e3 @ e4 @ e5"]) (auto split: option.splits)
            qed
          qed
        qed
      qed
    qed
  qed
qed

lemma for_loop_trace:
  "for_loop env q k n us tried tr = (f, tried', tr') \<Longrightarrow>
     \<exists>m evs. m \<le> length us \<and> tried' = tried @ take m us \<and> tr' = tr @ evs \<and>
       (scraped_urls evs = take m us \<or>
        0 < m \<and> scraped_urls evs = take (m - 1) us \<and> (\<exists>e. f = Raise e)) \<and>
       (f = Continue \<longrightarrow> m = length us) \<and>
       (\<forall>e. f = Raise e \<longrightarrow> evs \<noteq> [] \<and> sink_raised e (last evs)) \<and>
       (\<forall>a. f = Return a \<longrightarrow> evs \<noteq> [] \<and> last evs = Info None)"
proof (induction us arbitrary: n tried tr)
  case Nil
  then show ?case by simp
next
  case (Cons url rest)
  obtain f1 t1 tr1 where a: "attempt env q k n url tried tr = (f1, t1, tr1)"
    by (metis prod_cases3)
  from attempt_trace [OF a] obtain e1 where
    e1: "t1 = tried @ [url]" "tr1 = tr @ e1" "e1 \<noteq> []"
        "scraped_urls e1 = [url] \<or> scraped_urls e1 = [] \<and> (\<exists>e. f1 = Raise e)"
        "\<forall>e. f1 = Raise e \<longrightarrow> sink_raised e (last e1)"
        "(\<forall>e. f1 \<noteq> Raise e) \<longrightarrow> last e1 = Info None"
    by blast
  show ?case
  proof (cases f1)
    case Continue
    with a Cons.prems have r: "for_loop env q k (Suc n) rest t1 tr1 = (f, tried', tr')"
      by simp
    from Cons.IH [OF r] obtain m evs where
      m: "m \<le> length rest" "tried' = t1 @ take m rest" "tr' = tr1 @ evs"
         "scraped_urls evs = take m rest \<or>
            0 < m \<and> scraped_urls evs = take (m - 1) rest \<and> (\<exists>e. f = Raise e)"
         "f = Continue \<longrightarrow> m = length rest"
         "\<forall>e. f = Raise e \<longrightarrow> evs \<noteq> [] \<and> sink_raised e (last evs)"
         "\<forall>a. f = Return a \<longrightarrow> evs \<noteq> [] \<and> last evs = Info None"
      by blast
    have s1: "scraped_urls e1 = [url]" using e1(4) Continue by simp
    have su: "scraped_urls (e1 @ evs) = take (Suc m) (url # rest) \<or>
            0 < Suc m \<and> scraped_urls (e1 @ evs) = take (Suc m - 1) (url # rest) \<and> (\<exists>e. f = Raise e)"
      using m(4) s1 by (cases m) auto
    show ?thesis
      using m(1,2,3,5,6,7) e1(1,2) su
      by (intro exI [of _ "Suc m"] exI [of _ "e1 @ evs"]) (simp del: scraped_urls_append)
  next
    case (Return x)
    with a Cons.prems have res: "f = Return x" "tried' = t1" "tr' = tr1" by simp_all
    show ?thesis using res e1 Return
      by (intro exI [of _ "Suc 0"] exI [of _ e1]) simp
  next
    case (Raise x)
    with a Cons.prems have res: "f = Raise x" "tried' = t1" "tr' = tr1" by simp_all
    show ?thesis using res e1 Raise
      by (intro exI [of _ "Suc 0"] exI [of _ e1]) auto
  qed
qed


section \<open>Sessions in which no status update raises\<close>



lemma quiet_append [simp]: "quiet (xs @ ys) = (quiet xs \<and> quiet ys)"
  by (simp add: quiet_def)

lemma quiet_Nil [simp]: "quiet []"
  by (simp add: quiet_def)




lemma quiet_drop_append:
  "n \<le> length xs \<Longrightarrow> quiet (drop n (xs @ ys)) = (quiet (drop n xs) \<and> quiet ys)"
  by simp





section \<open>Early exit, budget and failure isolation\<close>




section \<open>Order of the tried URLs, status updates, budgets\<close>


text \<open>
  C8 (amended). After any number \<open>j\<close> of passes of the loop, whatever the collaborators
  do, the tried URLs are a prefix of the candidate list in its order, and the URLs
  fetched are a prefix of the tried URLs. When the candidate list has no duplicates,
  neither have the tried URLs, and no URL is fetched twice. The list a session returns is
  the list after the last pass.
\<close>

theorem tried_urls_prefix:
  assumes "for_loop env q k 1 (take j (slice_to urls k)) [] [] = (f, tried, tr)"
  shows "prefix tried urls \<and> prefix (scraped_urls tr) tried \<and>
         (distinct urls \<longrightarrow> distinct tried \<and> distinct (scraped_urls tr)) \<and>
         (\<forall>text tried'. length (slice_to urls k) \<le> j \<and>
             fst (run_search_session env q urls k) = Inr (text, tried') \<longrightarrow> tried' = tried)"
proof -
  obtain c where c: "slice_to urls k = take c urls"
    using slice_to_take by blast
  from for_loop_trace [OF assms] obtain m where
    m: "tried = take m (take j (slice_to urls k))"
       "scraped_urls tr = take m (take j (slice_to urls k)) \<or>
          scraped_urls tr = take (m - 1) (take j (slice_to urls k))"
    by auto
  have p1: "prefix tried urls"
    by (simp add: m(1) c take_is_prefix)
  have "scraped_urls tr = take (m - 1) tried \<or> scraped_urls tr = tried"
    using m by (auto simp: min_def)
  then have p2: "prefix (scraped_urls tr) tried"
    by (auto simp: take_is_prefix)
  have d: "distinct tried \<and> distinct (scraped_urls tr)" if "distinct urls"
    using that m c by (auto simp: distinct_take)
  have r: "tried' = tried"
    if "length (slice_to urls k) \<le> j" "fst (run_search_session env q urls k) = Inr (t, tried')"
    for t tried'
  proof -
    have "take j (slice_to urls k) = slice_to urls k" using that(1) by simp
    with assms have "for_loop env q k 1 (slice_to urls k) [] [] = (f, tried, tr)" by simp
    with that(2) show ?thesis
      by (cases f) (auto simp: run_search_session_def split: prod.splits option.splits)
  qed
  from p1 p2 d r show ?thesis by blast
qed



section \<open>Concrete sessions evaluated\<close>

lemma sink_ok_mixed: "sink_ok mixed_env"
  by (simp add: sink_ok_def mixed_env_def)

lemma sink_ok_insufficient: "sink_ok insufficient_env"
  by (simp add: sink_ok_def insufficient_env_def)




lemma insufficient_fields:
  "scrape_single_url insufficient_env tr url = Inr (Some ''page text'')"
  "query_chat_model insufficient_env tr prompt = Inr ''Insufficient context''"
  "CHAT_MODEL insufficient_env = ''gemma3:4b''"
  "dict_attribute insufficient_env name = None"
  by (simp_all add: insufficient_env_def)

lemma parse_insufficient: "parse_llm_sufficiency_response ''Insufficient context'' = (None, False)"
  by code_simp

lemma strip_page_text: "str_strip ''page text'' = ''page text''"
  by code_simp

lemma str_nat_small: "str_nat (Suc 0) = ''1''" "str_nat (Suc (Suc 0)) = ''2''"
  by code_simp+

lemma insufficient_attempt:
  "attempt insufficient_env q k n url tried tr =
     (Continue, tried @ [url],
      tr @ [Callback (AttemptMsg n k url) None, Info None, Callback ScrapingMsg None, Info None,
            Scraped url (Inr (Some ''page text'')),
            Callback (ScrapeOkMsg 9) None, Info None, Callback AnalyzingMsg None, Info None,
            Queried (format_prompt q url ''page text'') (Inr ''Insufficient context''),
            Callback (InsufficientMsg url) None, Info None])"
  by (simp add: attempt_def scrape_try_def analyze_try_def Let_def
      update_status_ok [OF sink_ok_insufficient] insufficient_fields getattr_dict_def
      str_slice_to_def slice_to_def parse_insufficient strip_page_text)

lemma insufficient_run:
  "run_search_session insufficient_env ''q'' [''urlA'', ''urlB'', ''urlC''] 2 =
     (Inr (''Could not find a sufficient answer after trying 2 URL(s).'', [''urlA'', ''urlB'']),
      [Callback (AttemptMsg 1 2 ''urlA'') None, Info None, Callback ScrapingMsg None, Info None,
       Scraped ''urlA'' (Inr (Some ''page text'')),
       Callback (ScrapeOkMsg 9) None, Info None, Callback AnalyzingMsg None, Info None,
       Queried (format_prompt ''q'' ''urlA'' ''page text'') (Inr ''Insufficient context''),
       Callback (InsufficientMsg ''urlA'') None, Info None,
       Callback (AttemptMsg 2 2 ''urlB'') None, Info None, Callback ScrapingMsg None, Info None,
       Scraped ''urlB'' (Inr (Some ''page text'')),
       Callback (ScrapeOkMsg 9) None, Info None, Callback AnalyzingMsg None, Info None,
       Queried (format_prompt ''q'' ''urlB'' ''page text'') (Inr ''Insufficient context''),
       Callback (InsufficientMsg ''urlB'') None, Info None,
       Callback (FinishedMsg ''Could not find a sufficient answer after trying 2 URL(s).'') None,
       Info None])"
  by (simp add: run_search_session_def slice_to_def insufficient_attempt
      update_status_ok [OF sink_ok_insufficient] failure_message_def str_nat_small)


theorem duplicate_urls_counterexample:
  "fst (run_search_session insufficient_env ''q'' [''urlA'', ''urlA''] 2) =
     Inr (''Could not find a sufficient answer after trying 2 URL(s).'', [''urlA'', ''urlA'']) \<and>
   scraped_urls (snd (run_search_session insufficient_env ''q'' [''urlA'', ''urlA''] 2)) =
     [''urlA'', ''urlA''] \<and>
   \<not> distinct [''urlA'', ''urlA'']"
  by (simp add: run_search_session_def slice_to_def insufficient_attempt
      update_status_ok [OF sink_ok_insufficient] failure_message_def str_nat_small)

theorem tried_urls_prefix_witness:
  "distinct [''urlA'', ''urlB'', ''urlC''] \<and>
   length (slice_to [''urlA'', ''urlB'', ''urlC''] 2) \<le> 2 \<and>
   fst (run_search_session insufficient_env ''q'' [''urlA'', ''urlB'', ''urlC''] 2) =
     Inr (''Could not find a sufficient answer after trying 2 URL(s).'',
          fst (snd (for_loop insufficient_env ''q'' 2 1
                      (take 2 (slice_to [''urlA'', ''urlB'', ''urlC''] 2)) [] []))) \<and>
   prefix (fst (snd (for_loop insufficient_env ''q'' 2 1
                       (take 2 (slice_to [''urlA'', ''urlB'', ''urlC''] 2)) [] [])))
          [''urlA'', ''urlB'', ''urlC''] \<and>
   distinct (fst (snd (for_loop insufficient_env ''q'' 2 1
                         (take 2 (slice_to [''urlA'', ''urlB'', ''urlC''] 2)) [] [])))"
proof -
  let ?loop = "for_loop insufficient_env ''q'' 2 1 (take 2 (slice_to [''urlA'', ''urlB'', ''urlC''] 2)) [] []"
  have eq: "?loop = (fst ?loop, fst (snd ?loop), snd (snd ?loop))" by simp
  have d: "distinct [''urlA'', ''urlB'', ''urlC'']" by simp
  have l: "length (slice_to [''urlA'', ''urlB'', ''urlC''] 2) \<le> 2" by (simp add: slice_to_def)
  have r: "fst (run_search_session insufficient_env ''q'' [''urlA'', ''urlB'', ''urlC''] 2) =
     Inr (''Could not find a sufficient answer after trying 2 URL(s).'', [''urlA'', ''urlB''])"
    by (simp add: insufficient_run)
  from tried_urls_prefix [OF eq] d l r
  show ?thesis by auto
qed




lemma flaky_fields:
  "scrape_single_url flaky_sink_env tr url = Inr (Some ''page text'')"
  "query_chat_model flaky_sink_env tr prompt = Inr ''Final Answer: Y''"
  "status_callback flaky_sink_env tr msg =
     (case msg of FoundMsg url \<Rightarrow> Some (Exception ''sink failure'') | _ \<Rightarrow> None)"
  "placeholder_info flaky_sink_env tr = None"
  "CHAT_MODEL flaky_sink_env = ''gemma3:4b''"
  "dict_attribute flaky_sink_env name = None"
  by (simp_all add: flaky_sink_env_def)

lemma parse_answer_Y: "parse_llm_sufficiency_response ''Final Answer: Y'' = (Some ''Y'', True)"
  by code_simp

text \<open>
  A status update inside a \<open>try\<close> block that raises is caught by the \<open>except\<close> clause
  of that block. When the notice that announces the answer raises, the pass is handled
  as a failed analysis: the answer is dropped and the session goes on to exhaustion.
\<close>

lemma found_notice_failure_discards_answer:
  "fst (run_search_session flaky_sink_env ''q'' [''urlA''] 1) =
     Inr (''Could not find a sufficient answer after trying 1 URL(s).'', [''urlA''])"
  by (simp add: run_search_session_def slice_to_def attempt_def scrape_try_def analyze_try_def
      Let_def update_status_def flaky_fields getattr_dict_def str_slice_to_def
      parse_answer_Y strip_page_text failure_message_def str_nat_small)






text \<open>
  Whatever the table holds, a model name that is no attribute of a dictionary object gets
  the default cap: the judge is sent the first 15000 characters of the page.
\<close>

lemma analyze_try_prompt:
  assumes "dict_attribute env (CHAT_MODEL env) = None"
  shows "\<exists>rest. snd (analyze_try env q url scraped_text tr) =
           tr @ Queried (format_prompt q url (take 15000 scraped_text))
                  (query_chat_model env tr (format_prompt q url (take 15000 scraped_text))) # rest"
  using assms
  by (auto simp: analyze_try_def Let_def getattr_dict_def str_slice_to_def slice_to_def
      update_status_def split: sum.splits option.splits prod.splits)

text \<open>
  C4. The cap is looked up with \<open>getattr\<close>, which reads the attributes of the dictionary
  object and not its entries, so for the configured model \<open>gemma3:4b\<close>, whose entry in
  the table is 100000, the cap is the default 15000: of a page of 15001 characters the
  judge is sent the first 15000.
\<close>

theorem context_cap_ignores_table:
  "CHAT_MODEL insufficient_env = ''gemma3:4b'' \<and>
   dict_get MAX_LLM_CONTEXT_LENGTH (CHAT_MODEL insufficient_env) 15000 = 100000 \<and>
   analyze_try insufficient_env ''q'' ''urlA'' (replicate 15001 (CHR ''a'')) [] =
     (Inr None,
      [Queried (format_prompt ''q'' ''urlA'' (replicate 15000 (CHR ''a''))) (Inr ''Insufficient context''),
       Callback (InsufficientMsg ''urlA'') None, Info None])"
  by (simp add: analyze_try_def Let_def update_status_ok [OF sink_ok_insufficient]
      insufficient_fields getattr_dict_def dict_get_def MAX_LLM_CONTEXT_LENGTH_def
      str_slice_to_def slice_to_def parse_insufficient)

end
